theory Spec2Isabelle
  imports Main "HOL-Library.Log_Nat" "HOL-Library.Stream"
begin

section \<open>Binary64 arithmetic\<close>

text \<open>
  Python's \<^verbatim>\<open>float\<close> is an IEEE 754 binary64. A finite binary64 is a rational
  number, so a float is modelled by its exact value in \<^typ>\<open>rat\<close>, and every
  arithmetic operation of the source is the exact operation followed by rounding to
  the nearest number with a 53-bit significand, ties to even (\<open>fl\<close>). The exponent is
  not bounded: overflow, subnormal numbers, infinities and NaN are outside the model.
  All values computed by \<^verbatim>\<open>src/main.py\<close> lie between \<open>2\<^sup>-\<^sup>4\<close> and \<open>2\<^sup>7\<close>, far
  from both ends of the exponent range.
\<close>

definition rhe :: "rat \<Rightarrow> int" where
  \<comment> \<open>round to the nearest integer, ties to the even one\<close>
  "rhe x = (let f = \<lfloor>x\<rfloor>; d = x - of_int f
            in if d < 1 / 2 then f
               else if 1 / 2 < d then f + 1
               else if even f then f else f + 1)"

definition pow2 :: "int \<Rightarrow> rat" where
  "pow2 e = (if 0 \<le> e then 2 ^ nat e else 1 / 2 ^ nat (- e))"

definition ilog2 :: "rat \<Rightarrow> int" where
  \<comment> \<open>the binade of a positive number: \<open>pow2 (ilog2 x) \<le> x < pow2 (ilog2 x + 1)\<close>\<close>
  "ilog2 x = (if 1 \<le> x then int (floorlog 2 (nat \<lfloor>x\<rfloor>)) - 1
              else - int (floorlog 2 (nat (\<lceil>1 / x\<rceil> - 1))))"

definition fl_pos :: "rat \<Rightarrow> rat" where
  "fl_pos x = (let e = ilog2 x in of_int (rhe (x * pow2 (52 - e))) * pow2 (e - 52))"

definition fl :: "rat \<Rightarrow> rat" where
  "fl x = (if x = 0 then 0 else if x < 0 then - fl_pos (- x) else fl_pos x)"

definition lit :: "rat \<Rightarrow> rat" where
  \<comment> \<open>a decimal float literal of the source, such as \<^verbatim>\<open>0.55\<close>: the nearest binary64\<close>
  "lit q = fl q"

definition round_py :: "rat \<Rightarrow> nat \<Rightarrow> rat" where
  \<comment> \<open>\<^verbatim>\<open>round(x, ndigits)\<close> on a float: CPython prints the exact value of \<open>x\<close>
      correctly rounded (ties to even) to \<open>ndigits\<close> decimals and reads the decimal
      string back as the nearest binary64\<close>
  "round_py x ndigits = fl (of_int (rhe (x * 10 ^ ndigits)) / 10 ^ ndigits)"

section \<open>The random module\<close>

text \<open>
  The handler draws from the module-level generator of Python's \<^verbatim>\<open>random\<close>, which
  is not part of the repository and is never seeded by it. The generator's state is
  modelled by the stream of raw numbers it will deliver; each call consumes the head
  of the stream and returns the state advanced.
  \<^item> \<^verbatim>\<open>random.random()\<close> returns \<open>k / 2\<^sup>5\<^sup>3\<close> for an integer \<open>0 \<le> k < 2\<^sup>5\<^sup>3\<close>.
  \<^item> \<^verbatim>\<open>random.uniform(a, b)\<close> is \<^verbatim>\<open>a + (b - a) * self.random()\<close>, in float
    arithmetic.
  \<^item> \<^verbatim>\<open>random.randint(a, b)\<close> returns an integer \<open>N\<close> with \<open>a \<le> N \<le> b\<close>; it is
    called here with constant bounds \<open>a \<le> b\<close> only, so that its \<^verbatim>\<open>ValueError\<close> for
    an empty range cannot occur.
\<close>

type_synonym rng = "nat stream"

definition random_random :: "rng \<Rightarrow> rat \<times> rng" where
  "random_random g = (of_nat (shd g mod 2 ^ 53) / 2 ^ 53, stl g)"

definition random_uniform :: "rat \<Rightarrow> rat \<Rightarrow> rng \<Rightarrow> rat \<times> rng" where
  "random_uniform a b g =
     (case random_random g of (r, g') \<Rightarrow> (fl (a + fl (fl (b - a) * r)), g'))"

definition random_randint :: "int \<Rightarrow> int \<Rightarrow> rng \<Rightarrow> int \<times> rng" where
  "random_randint a b g = (a + int (shd g mod nat (b - a + 1)), stl g)"

section \<open>Formatting an integer as \<^verbatim>\<open>064x\<close>\<close>

definition hex_digit :: "nat \<Rightarrow> char" where
  "hex_digit d = ''0123456789abcdef'' ! (d mod 16)"

function hex :: "nat \<Rightarrow> string" where
  "hex n = (if n < 16 then [hex_digit n] else hex (n div 16) @ [hex_digit (n mod 16)])"
  by pat_completeness auto
termination
  by (relation "measure (\<lambda>n. n)") auto

definition zfill :: "nat \<Rightarrow> string \<Rightarrow> string" where
  "zfill w s = replicate (w - length s) (CHR ''0'') @ s"

definition format_064x :: "int \<Rightarrow> string" where
  \<comment> \<open>the format specification \<^verbatim>\<open>064x\<close>: lower-case hexadecimal, padded with zeros
      after the sign to a total width of 64\<close>
  "format_064x n = (if n < 0 then CHR ''-'' # zfill 63 (hex (nat (- n)))
                    else zfill 64 (hex (nat n)))"

section \<open>The service\<close>

text \<open>
  A handler returns a Python dict with string keys, which the framework serialises
  to JSON in the order the keys were written: an association list of JSON values.
\<close>

datatype json = JBool bool | JFloat rat | JStr string

type_synonym body = "(string \<times> json) list"

record upload_file =
  filename :: "string option"
  content_type :: "string option"
  content :: string

definition read_root :: body where
  "read_root = [(''status'', JStr ''MedChain Oracle Backend - Live''),
                (''version'', JStr ''1.0.0'')]"

definition health_check :: body where
  "health_check = [(''status'', JStr ''healthy''),
                   (''service'', JStr ''medchain-oracle-api'')]"

definition verify_drug :: "upload_file \<Rightarrow> rng \<Rightarrow> body \<times> rng" where
  \<comment> \<open>the values of the dict are evaluated in the order they are written: the
      anomaly score is drawn before the hash\<close>
  "verify_drug file g0 =
     (case random_uniform (lit (55 / 100)) (lit (95 / 100)) g0 of (confidence, g1) \<Rightarrow>
      let is_authentic = (lit (5 / 10) < confidence) in
      case random_uniform (lit (1 / 10)) (lit (5 / 10)) g1 of (anomaly, g2) \<Rightarrow>
      case random_randint (10 ^ 63) (10 ^ 64 - 1) g2 of (h, g3) \<Rightarrow>
        ([(''authentic'', JBool is_authentic),
          (''confidence'', JFloat (round_py (fl (confidence * 100)) 1)),
          (''risk_level'', JStr (if is_authentic then ''LOW'' else ''HIGH'')),
          (''anomaly_score'', JFloat (round_py anomaly 3)),
          (''blockchain_hash'', JStr (''0x'' @ format_064x h))], g3))"

definition predict_shortage :: body where
  "predict_shortage = [(''drug'', JStr ''Insulin Glargine 100U/mL''),
                       (''location'', JStr ''Mumbai Central''),
                       (''risk_score'', JFloat (lit 85)),
                       (''recommendation'', JStr ''URGENT: Order 259 units immediately'')]"

text \<open>
  The four routes registered on the application object. A handler that returns a
  dict is answered with status 200, the default of the route decorators; no route
  sets another status and no handler raises. The state of the service is the state of
  the random generator, the only thing a handler reads or changes.
\<close>

datatype request = GetRoot | GetHealth | PostVerify upload_file | GetShortagePrediction

datatype response = Response (status: nat) (payload: body)

fun app :: "request \<Rightarrow> rng \<Rightarrow> response \<times> rng" where
  "app GetRoot g = (Response 200 read_root, g)"
| "app GetHealth g = (Response 200 health_check, g)"
| "app (PostVerify file) g = (case verify_drug file g of (v, g') \<Rightarrow> (Response 200 v, g'))"
| "app GetShortagePrediction g = (Response 200 predict_shortage, g)"

section \<open>The admission controller of the target design\<close>

text \<open>
  Modelled from the spec: the admission controller, its tickets and its counter.
  \<^verbatim>\<open>src/main.py\<close> has none of them: nothing counts requests in flight and no route can
  answer 429. The controller below follows section 4.1 of the specification: a
  bounded counter of tickets in flight, and the tickets not yet released, so that a
  second release of a ticket changes nothing. Deadlines are real time and are left
  out.
\<close>

record controller =
  capacity :: nat
  in_flight :: nat
  next_ticket :: nat
  live :: "nat list"

datatype admission = Ticket nat | Rejected

definition new_controller :: "nat \<Rightarrow> controller" where
  \<comment> \<open>Modelled from the spec: a controller of capacity \<open>C\<close> with no request in flight\<close>
  "new_controller C = \<lparr>capacity = C, in_flight = 0, next_ticket = 0, live = []\<rparr>"

definition admit :: "controller \<Rightarrow> admission \<times> controller" where
  \<comment> \<open>Modelled from the spec: the admission controller's \<^verbatim>\<open>admit()\<close>, absent from the
      source. "If current in-flight count < capacity, increment and return a ticket;
      otherwise return Rejected immediately."\<close>
  "admit c =
     (if in_flight c < capacity c
      then (Ticket (next_ticket c),
            c\<lparr>in_flight := in_flight c + 1,
              next_ticket := next_ticket c + 1,
              live := next_ticket c # live c\<rparr>)
      else (Rejected, c))"

definition release :: "nat \<Rightarrow> controller \<Rightarrow> controller" where
  \<comment> \<open>Modelled from the spec: the release of a ticket, absent from the source.
      "Release is idempotent: releasing an already-released ticket is a no-op."\<close>
  "release t c =
     (if t \<in> set (live c)
      then c\<lparr>in_flight := in_flight c - 1, live := removeAll t (live c)\<rparr>
      else c)"

fun admit_n :: "nat \<Rightarrow> controller \<Rightarrow> admission list \<times> controller" where
  \<comment> \<open>Modelled from the spec: \<open>n\<close> calls of \<open>admit\<close> in a row, "without release"\<close>
  "admit_n 0 c = ([], c)"
| "admit_n (Suc n) c =
     (case admit c of (a, c') \<Rightarrow> case admit_n n c' of (as, c'') \<Rightarrow> (a # as, c''))"

fun is_ticket :: "admission \<Rightarrow> bool" where
  "is_ticket (Ticket t) = True"
| "is_ticket Rejected = False"

section \<open>Rounding is monotone\<close>

lemma rhe_lower: "\<lfloor>x\<rfloor> \<le> rhe x"
  by (simp add: rhe_def Let_def)

lemma rhe_upper: "rhe x \<le> \<lfloor>x\<rfloor> + 1"
  by (simp add: rhe_def Let_def)

lemma rhe_of_int: "rhe (of_int n) = n"
  by (simp add: rhe_def Let_def)

lemma rhe_mono:
  assumes "x \<le> y"
  shows "rhe x \<le> rhe y"
proof (cases "\<lfloor>x\<rfloor> = \<lfloor>y\<rfloor>")
  case True
  with assms show ?thesis
    by (auto simp add: rhe_def Let_def)
next
  case False
  with assms have "\<lfloor>x\<rfloor> < \<lfloor>y\<rfloor>"
    using floor_mono [of x y] by linarith
  then have "\<lfloor>x\<rfloor> + 1 \<le> \<lfloor>y\<rfloor>"
    by simp
  with rhe_upper [of x] rhe_lower [of y] show ?thesis
    by linarith
qed

lemma rhe_ge_int: "of_int n \<le> x \<Longrightarrow> n \<le> rhe x"
  using rhe_mono [of "of_int n" x] by (simp add: rhe_of_int)

lemma rhe_le_int: "x \<le> of_int n \<Longrightarrow> rhe x \<le> n"
  using rhe_mono [of x "of_int n"] by (simp add: rhe_of_int)

lemma pow2_powi: "pow2 e = 2 powi e"
  by (simp add: pow2_def power_int_def inverse_eq_divide power_one_over)

lemma pow2_pos: "0 < pow2 e"
  by (simp add: pow2_powi)

lemma pow2_add: "pow2 (a + b) = pow2 a * pow2 b"
  by (simp add: pow2_powi power_int_add)

lemma pow2_mono: "a \<le> b \<Longrightarrow> pow2 a \<le> pow2 b"
  by (simp add: pow2_powi power_int_increasing)

lemma pow2_strict_mono: "a < b \<Longrightarrow> pow2 a < pow2 b"
  by (simp add: pow2_powi power_int_strict_increasing)

lemma pow2_nat: "pow2 (int n) = 2 ^ n"
  by (simp add: pow2_def)

lemma pow2_neg_nat: "pow2 (- int n) = 1 / 2 ^ n"
proof (cases "n = 0")
  case True
  then show ?thesis by (simp add: pow2_def)
next
  case False
  then have "\<not> 0 \<le> - int n" by simp
  then show ?thesis by (simp only: pow2_def if_False minus_minus nat_int)
qed

lemma pow2_cancel: "pow2 a * pow2 (- a) = 1"
  using pow2_add [of a "- a"] by (simp add: pow2_def)

lemma ilog2_bounds:
  assumes "0 < x"
  shows "pow2 (ilog2 x) \<le> x \<and> x < pow2 (ilog2 x + 1)"
proof (cases "1 \<le> x")
  case True
  define n where "n = nat \<lfloor>x\<rfloor>"
  define b where "b = floorlog 2 n"
  from True have n: "0 < n"
    by (simp add: n_def)
  from floorlog_bounds [of n 2] n have fb: "2 ^ (b - 1) \<le> n" "n < 2 ^ b"
    by (simp_all add: b_def)
  from n have "b \<noteq> 0"
    by (simp add: b_def floorlog_eq_zero_iff)
  then have b: "0 < b"
    by simp
  have e: "ilog2 x = int b - 1"
    using True by (simp add: ilog2_def b_def n_def)
  have nx: "of_nat n \<le> x" "x < of_nat n + 1"
  proof -
    from True have "int n = \<lfloor>x\<rfloor>" by (simp add: n_def)
    then have "(of_int (int n) :: rat) = of_int \<lfloor>x\<rfloor>" by simp
    then have nn: "(of_nat n :: rat) = of_int \<lfloor>x\<rfloor>" by simp
    have "of_int \<lfloor>x\<rfloor> \<le> x" "x < of_int \<lfloor>x\<rfloor> + 1"
      by linarith+
    with nn show "of_nat n \<le> x" "x < of_nat n + 1"
      by simp_all
  qed
  have p1: "pow2 (ilog2 x) = 2 ^ (b - 1)"
    using b pow2_nat [of "b - 1"] by (simp add: e of_nat_diff)
  have p2: "pow2 (ilog2 x + 1) = 2 ^ b"
    using pow2_nat [of b] by (simp add: e)
  have lo: "(2::rat) ^ (b - 1) \<le> of_nat n"
  proof -
    from fb(1) have "(of_nat (2 ^ (b - 1)) :: rat) \<le> of_nat n"
      by (simp only: of_nat_le_iff)
    then show ?thesis by simp
  qed
  have hi: "of_nat n + 1 \<le> (2::rat) ^ b"
  proof -
    from fb(2) have "n + 1 \<le> 2 ^ b" by simp
    then have "(of_nat (n + 1) :: rat) \<le> of_nat (2 ^ b)"
      by (simp only: of_nat_le_iff)
    then show ?thesis by simp
  qed
  from lo nx(1) have "pow2 (ilog2 x) \<le> x"
    unfolding p1 by (rule order_trans)
  moreover from nx(2) hi have "x < pow2 (ilog2 x + 1)"
    unfolding p2 by (rule less_le_trans)
  ultimately show ?thesis ..
next
  case False
  define y where "y = 1 / x"
  define m where "m = nat (\<lceil>y\<rceil> - 1)"
  define c where "c = floorlog 2 m"
  from False assms have y: "1 < y"
    by (simp add: y_def)
  then have cy: "2 \<le> \<lceil>y\<rceil>"
    by (simp add: le_ceiling_iff)
  then have m: "0 < m"
    by (simp add: m_def)
  from floorlog_bounds [of m 2] m have fb: "2 ^ (c - 1) \<le> m" "m < 2 ^ c"
    by (simp_all add: c_def)
  from m have "c \<noteq> 0"
    by (simp add: c_def floorlog_eq_zero_iff)
  then have c: "0 < c"
    by simp
  have e: "ilog2 x = - int c"
    using False by (simp add: ilog2_def c_def m_def y_def)
  have my: "of_nat m < y" "y \<le> of_nat m + 1"
  proof -
    have "int m = \<lceil>y\<rceil> - 1" using cy by (simp add: m_def)
    then have "(of_int (int m) :: rat) = of_int (\<lceil>y\<rceil> - 1)"
      by simp
    then have mm: "(of_nat m :: rat) = of_int \<lceil>y\<rceil> - 1"
      by simp
    have "of_int \<lceil>y\<rceil> - 1 < y" "y \<le> of_int \<lceil>y\<rceil>"
      by linarith+
    with mm show "of_nat m < y" "y \<le> of_nat m + 1"
      by simp_all
  qed
  have lo: "(2::rat) ^ (c - 1) < y"
  proof -
    from fb(1) have "(of_nat (2 ^ (c - 1)) :: rat) \<le> of_nat m"
      by (simp only: of_nat_le_iff)
    then have "(2::rat) ^ (c - 1) \<le> of_nat m"
      by simp
    then show ?thesis using my(1) by (rule le_less_trans)
  qed
  have hi: "y \<le> (2::rat) ^ c"
  proof -
    from fb(2) have "m + 1 \<le> 2 ^ c" by simp
    then have "(of_nat (m + 1) :: rat) \<le> of_nat (2 ^ c)"
      by (simp only: of_nat_le_iff)
    then have "(of_nat m :: rat) + 1 \<le> 2 ^ c"
      by simp
    with my(2) show ?thesis by (rule order_trans)
  qed
  have p1: "pow2 (- int c) = 1 / 2 ^ c"
    by (simp add: pow2_def)
  have p2: "pow2 (- int c + 1) = 1 / 2 ^ (c - 1)"
  proof -
    have eq: "- int c + 1 = - int (c - 1)" using c by (simp add: of_nat_diff)
    have "pow2 (- int (c - 1)) = 1 / 2 ^ (c - 1)" by (rule pow2_neg_nat)
    then show ?thesis by (simp only: eq)
  qed
  have xy: "x = 1 / y" by (simp add: y_def)
  have "1 / 2 ^ c \<le> x"
    unfolding xy using hi y by (simp add: frac_le)
  then have "pow2 (ilog2 x) \<le> x"
    by (simp only: e p1)
  moreover have "x < 1 / 2 ^ (c - 1)"
    unfolding xy using lo by (simp add: frac_less2)
  then have "x < pow2 (ilog2 x + 1)"
    by (simp only: e p2)
  ultimately show ?thesis ..
qed

lemma ilog2_unique:
  assumes "pow2 e \<le> x" "x < pow2 (e + 1)"
  shows "ilog2 x = e"
proof -
  have x: "0 < x" using assms(1) pow2_pos [of e] by linarith
  note b = ilog2_bounds [OF x]
  show ?thesis
  proof (rule ccontr)
    assume "ilog2 x \<noteq> e"
    then consider "ilog2 x + 1 \<le> e" | "e + 1 \<le> ilog2 x" by linarith
    then show False
    proof cases
      case 1
      then have "pow2 (ilog2 x + 1) \<le> pow2 e" by (rule pow2_mono)
      with b assms show False by linarith
    next
      case 2
      then have "pow2 (e + 1) \<le> pow2 (ilog2 x)" by (rule pow2_mono)
      with b assms show False by linarith
    qed
  qed
qed


lemma pow2_52: "pow2 52 = of_int (2 ^ 52)"
  by (simp add: pow2_def)

lemma pow2_53: "pow2 53 = of_int (2 ^ 53)"
  by (simp add: pow2_def)

lemma scaled_lower:
  assumes "pow2 e \<le> x"
  shows "of_int (2 ^ 52) \<le> x * pow2 (52 - e)"
proof -
  have "pow2 e * pow2 (52 - e) \<le> x * pow2 (52 - e)"
    using assms pow2_pos [of "52 - e"] by (simp add: mult_right_mono)
  moreover have "pow2 e * pow2 (52 - e) = pow2 52"
    using pow2_add [of e "52 - e"] by simp
  ultimately show ?thesis
    by (simp only: pow2_52)
qed

lemma scaled_upper:
  assumes "x < pow2 (e + 1)"
  shows "x * pow2 (52 - e) \<le> of_int (2 ^ 53)"
proof -
  have "x * pow2 (52 - e) \<le> pow2 (e + 1) * pow2 (52 - e)"
    using assms pow2_pos [of "52 - e"] by (simp add: mult_right_mono)
  moreover have "pow2 (e + 1) * pow2 (52 - e) = pow2 53"
  proof -
    have "e + 1 + (52 - e) = 53" by simp
    with pow2_add [of "e + 1" "52 - e"] show ?thesis by (simp only:)
  qed
  ultimately show ?thesis
    by (simp only: pow2_53)
qed

lemma fl_pos_eq:
  assumes "pow2 e \<le> x" "x < pow2 (e + 1)"
  shows "fl_pos x = of_int (rhe (x * pow2 (52 - e))) * pow2 (e - 52)"
  using ilog2_unique [OF assms] by (simp add: fl_pos_def Let_def)

lemma fl_pos_lower:
  assumes "pow2 e \<le> x" "x < pow2 (e + 1)"
  shows "pow2 e \<le> fl_pos x"
proof -
  have "2 ^ 52 \<le> rhe (x * pow2 (52 - e))"
    using scaled_lower [OF assms(1)] by (rule rhe_ge_int)
  then have "(of_int (2 ^ 52) :: rat) \<le> of_int (rhe (x * pow2 (52 - e)))"
    by (simp only: of_int_le_iff)
  then have "pow2 52 * pow2 (e - 52) \<le> of_int (rhe (x * pow2 (52 - e))) * pow2 (e - 52)"
    unfolding pow2_52 using pow2_pos [of "e - 52"] by (simp only: mult_right_mono less_imp_le)
  moreover have "pow2 52 * pow2 (e - 52) = pow2 e"
    using pow2_add [of 52 "e - 52"] by simp
  ultimately show ?thesis
    by (simp only: fl_pos_eq [OF assms])
qed

lemma fl_pos_upper:
  assumes "pow2 e \<le> x" "x < pow2 (e + 1)"
  shows "fl_pos x \<le> pow2 (e + 1)"
proof -
  have "rhe (x * pow2 (52 - e)) \<le> 2 ^ 53"
    using scaled_upper [OF assms(2)] by (rule rhe_le_int)
  then have "(of_int (rhe (x * pow2 (52 - e))) :: rat) \<le> of_int (2 ^ 53)"
    by (simp only: of_int_le_iff)
  then have "of_int (rhe (x * pow2 (52 - e))) * pow2 (e - 52) \<le> pow2 53 * pow2 (e - 52)"
    unfolding pow2_53 using pow2_pos [of "e - 52"] by (simp only: mult_right_mono less_imp_le)
  moreover have "pow2 53 * pow2 (e - 52) = pow2 (e + 1)"
  proof -
    have "53 + (e - 52) = e + 1" by simp
    with pow2_add [of 53 "e - 52"] show ?thesis by (simp only:)
  qed
  ultimately show ?thesis
    by (simp only: fl_pos_eq [OF assms])
qed

lemma fl_pos_mono:
  assumes "0 < x" "x \<le> y"
  shows "fl_pos x \<le> fl_pos y"
proof -
  from assms have y: "0 < y" by simp
  define e where "e = ilog2 x"
  define f where "f = ilog2 y"
  have bx: "pow2 e \<le> x" "x < pow2 (e + 1)"
    using ilog2_bounds [OF assms(1)] by (simp_all add: e_def)
  have bnd: "pow2 f \<le> y" "y < pow2 (f + 1)"
    using ilog2_bounds [OF y] by (simp_all add: f_def)
  have ef: "e \<le> f"
  proof (rule ccontr)
    assume "\<not> e \<le> f"
    then have "f + 1 \<le> e" by simp
    then have "pow2 (f + 1) \<le> pow2 e" by (rule pow2_mono)
    with bx(1) bnd(2) assms(2) show False by linarith
  qed
  show ?thesis
  proof (cases "e = f")
    case True
    have "x * pow2 (52 - e) \<le> y * pow2 (52 - e)"
      using assms(2) pow2_pos [of "52 - e"] by (simp add: mult_right_mono)
    then have "rhe (x * pow2 (52 - e)) \<le> rhe (y * pow2 (52 - e))"
      by (rule rhe_mono)
    then have "(of_int (rhe (x * pow2 (52 - e))) :: rat) \<le> of_int (rhe (y * pow2 (52 - e)))"
      by (simp only: of_int_le_iff)
    then have "of_int (rhe (x * pow2 (52 - e))) * pow2 (e - 52)
        \<le> of_int (rhe (y * pow2 (52 - e))) * pow2 (e - 52)"
      using pow2_pos [of "e - 52"] by (simp only: mult_right_mono less_imp_le)
    then show ?thesis
      using fl_pos_eq [OF bx] fl_pos_eq [OF bnd] by (simp only: True)
  next
    case False
    with ef have "e + 1 \<le> f" by simp
    then have "pow2 (e + 1) \<le> pow2 f" by (rule pow2_mono)
    with fl_pos_upper [OF bx] fl_pos_lower [OF bnd] show ?thesis
      by linarith
  qed
qed

lemma fl_pos_pos: "0 < x \<Longrightarrow> 0 < fl_pos x"
  using ilog2_bounds [of x] fl_pos_lower [of "ilog2 x" x] pow2_pos [of "ilog2 x"]
  by linarith

lemma fl_mono:
  assumes "0 \<le> x" "x \<le> y"
  shows "fl x \<le> fl y"
proof (cases "x = 0")
  case True
  with assms fl_pos_pos [of y] show ?thesis
    by (cases "y = 0") (simp_all add: fl_def)
next
  case False
  with assms have "0 < x" "0 < y" by simp_all
  with fl_pos_mono [of x y] assms(2) show ?thesis
    by (simp add: fl_def)
qed

lemma fl_nonneg: "0 \<le> x \<Longrightarrow> 0 \<le> fl x"
  using fl_mono [of 0 x] by (simp add: fl_def)

section \<open>What the handler draws and returns\<close>

lemma random_random_range: "0 \<le> fst (random_random g) \<and> fst (random_random g) < 1"
proof -
  have "shd g mod 2 ^ 53 < (2::nat) ^ 53" by simp
  then have "(of_nat (shd g mod 2 ^ 53) :: rat) < of_nat (2 ^ 53)"
    by (simp only: of_nat_less_iff)
  then show ?thesis
    by (simp add: random_random_def)
qed

lemma random_uniform_lower:
  assumes "0 \<le> a" "0 \<le> fl (b - a)" "fl a = a"
  shows "a \<le> fst (random_uniform a b g)"
proof -
  define r where "r = fst (random_random g)"
  have r: "0 \<le> r" using random_random_range [of g] by (simp add: r_def)
  have "0 \<le> fl (b - a) * r" using assms(2) r by simp
  then have "0 \<le> fl (fl (b - a) * r)" by (rule fl_nonneg)
  then have "a \<le> a + fl (fl (b - a) * r)" by simp
  with assms(1) have "fl a \<le> fl (a + fl (fl (b - a) * r))" by (rule fl_mono)
  then show ?thesis
    by (simp add: random_uniform_def r_def assms(3) split_beta)
qed

lemma random_uniform_upper:
  assumes "0 \<le> a" "0 \<le> fl (b - a)"
  shows "fst (random_uniform a b g) \<le> fl (a + fl (fl (b - a)))"
proof -
  define r where "r = fst (random_random g)"
  have r: "0 \<le> r" "r < 1" using random_random_range [of g] by (simp_all add: r_def)
  have nn: "0 \<le> fl (b - a) * r" using assms(2) r by simp
  have "fl (b - a) * r \<le> fl (b - a) * 1"
    using assms(2) r(2) by (intro mult_left_mono) simp_all
  then have "fl (b - a) * r \<le> fl (b - a)" by simp
  with nn have "fl (fl (b - a) * r) \<le> fl (fl (b - a))" by (rule fl_mono)
  then have le: "a + fl (fl (b - a) * r) \<le> a + fl (fl (b - a))" by simp
  from nn have "0 \<le> fl (fl (b - a) * r)" by (rule fl_nonneg)
  with assms(1) have "0 \<le> a + fl (fl (b - a) * r)" by simp
  then have "fl (a + fl (fl (b - a) * r)) \<le> fl (a + fl (fl (b - a)))"
    using le by (rule fl_mono)
  then show ?thesis
    by (simp add: random_uniform_def r_def split_beta)
qed

lemma round_py_mono:
  assumes "0 \<le> x" "x \<le> y"
  shows "round_py x n \<le> round_py y n"
proof -
  have "x * 10 ^ n \<le> y * 10 ^ n" using assms(2) by (simp add: mult_right_mono)
  then have le: "rhe (x * 10 ^ n) \<le> rhe (y * 10 ^ n)" by (rule rhe_mono)
  have "0 \<le> x * 10 ^ n" using assms(1) by simp
  then have "of_int 0 \<le> x * 10 ^ n" by simp
  then have nn: "0 \<le> rhe (x * 10 ^ n)" by (rule rhe_ge_int)
  have "(of_int (rhe (x * 10 ^ n)) :: rat) / 10 ^ n \<le> of_int (rhe (y * 10 ^ n)) / 10 ^ n"
    using le by (simp add: divide_right_mono)
  moreover have "0 \<le> (of_int (rhe (x * 10 ^ n)) :: rat) / 10 ^ n"
    using nn by simp
  ultimately show ?thesis
    unfolding round_py_def by (rule fl_mono [rotated])
qed

lemma conf_consts:
  "0 \<le> lit (55 / 100)"
  "0 \<le> fl (lit (95 / 100) - lit (55 / 100))"
  "fl (lit (55 / 100)) = lit (55 / 100)"
  "fl (lit (55 / 100) + fl (fl (lit (95 / 100) - lit (55 / 100)))) = lit (95 / 100)"
  "lit (5 / 10) < lit (55 / 100)"
  "55 \<le> fl (lit (55 / 100) * 100)"
  "fl (lit (95 / 100) * 100) = 95"
  "round_py 55 1 = 55"
  "round_py 95 1 = 95"
  by code_simp+

lemma anom_consts:
  "0 \<le> lit (1 / 10)"
  "0 \<le> fl (lit (5 / 10) - lit (1 / 10))"
  "fl (lit (1 / 10)) = lit (1 / 10)"
  "fl (lit (1 / 10) + fl (fl (lit (5 / 10) - lit (1 / 10)))) = lit (5 / 10)"
  "round_py (lit (1 / 10)) 3 = lit (1 / 10)"
  "round_py (lit (5 / 10)) 3 = lit (5 / 10)"
  "1 / 10 \<le> lit (1 / 10)"
  "lit (5 / 10) = 1 / 2"
  by code_simp+


lemma raw_confidence_bounds:
  "lit (55 / 100) \<le> fst (random_uniform (lit (55 / 100)) (lit (95 / 100)) g)"
  "fst (random_uniform (lit (55 / 100)) (lit (95 / 100)) g) \<le> lit (95 / 100)"
  using random_uniform_lower [OF conf_consts(1) conf_consts(2) conf_consts(3), of g]
    random_uniform_upper [OF conf_consts(1) conf_consts(2), of g]
  by (simp_all only: conf_consts(4))

lemma raw_anomaly_bounds:
  "lit (1 / 10) \<le> fst (random_uniform (lit (1 / 10)) (lit (5 / 10)) g)"
  "fst (random_uniform (lit (1 / 10)) (lit (5 / 10)) g) \<le> lit (5 / 10)"
  using random_uniform_lower [OF anom_consts(1) anom_consts(2) anom_consts(3), of g]
    random_uniform_upper [OF anom_consts(1) anom_consts(2), of g]
  by (simp_all only: anom_consts(4))

lemma confidence_pct_bounds:
  assumes "lit (55 / 100) \<le> c" "c \<le> lit (95 / 100)"
  shows "55 \<le> round_py (fl (c * 100)) 1" "round_py (fl (c * 100)) 1 \<le> 95"
proof -
  have c0: "0 \<le> c" using assms(1) conf_consts(1) by linarith
  have "lit (55 / 100) * 100 \<le> c * 100" using assms(1) by simp
  moreover have "0 \<le> lit (55 / 100) * 100" using conf_consts(1) by simp
  ultimately have "fl (lit (55 / 100) * 100) \<le> fl (c * 100)" by (rule fl_mono [rotated])
  with conf_consts(6) have lo: "55 \<le> fl (c * 100)" by linarith
  have "round_py 55 1 \<le> round_py (fl (c * 100)) 1"
    using lo by (intro round_py_mono) simp_all
  then show "55 \<le> round_py (fl (c * 100)) 1" by (simp only: conf_consts(8))
  have "c * 100 \<le> lit (95 / 100) * 100" using assms(2) by simp
  moreover have "0 \<le> c * 100" using c0 by simp
  ultimately have "fl (c * 100) \<le> fl (lit (95 / 100) * 100)" by (rule fl_mono [rotated])
  then have hi: "fl (c * 100) \<le> 95" by (simp only: conf_consts(7))
  have "0 \<le> fl (c * 100)" using lo by linarith
  then have "round_py (fl (c * 100)) 1 \<le> round_py 95 1"
    using hi by (rule round_py_mono)
  then show "round_py (fl (c * 100)) 1 \<le> 95" by (simp only: conf_consts(9))
qed

lemma anomaly_score_bounds:
  assumes "lit (1 / 10) \<le> a" "a \<le> lit (5 / 10)"
  shows "lit (1 / 10) \<le> round_py a 3" "round_py a 3 \<le> lit (5 / 10)"
proof -
  have "round_py (lit (1 / 10)) 3 \<le> round_py a 3"
    using anom_consts(1) assms(1) by (rule round_py_mono)
  then show "lit (1 / 10) \<le> round_py a 3" by (simp only: anom_consts(5))
  have "0 \<le> a" using assms(1) anom_consts(1) by linarith
  then have "round_py a 3 \<le> round_py (lit (5 / 10)) 3"
    using assms(2) by (rule round_py_mono)
  then show "round_py a 3 \<le> lit (5 / 10)" by (simp only: anom_consts(6))
qed

lemma verify_drug_payload:
  "fst (verify_drug file g) =
     [(''authentic'', JBool (lit (5 / 10) < fst (random_uniform (lit (55 / 100)) (lit (95 / 100)) g))),
      (''confidence'', JFloat (round_py (fl (fst (random_uniform (lit (55 / 100)) (lit (95 / 100)) g) * 100)) 1)),
      (''risk_level'', JStr (if lit (5 / 10) < fst (random_uniform (lit (55 / 100)) (lit (95 / 100)) g)
                             then ''LOW'' else ''HIGH'')),
      (''anomaly_score'', JFloat (round_py (fst (random_uniform (lit (1 / 10)) (lit (5 / 10))
           (snd (random_uniform (lit (55 / 100)) (lit (95 / 100)) g)))) 3)),
      (''blockchain_hash'', JStr (''0x'' @ format_064x (fst (random_randint (10 ^ 63) (10 ^ 64 - 1)
           (snd (random_uniform (lit (1 / 10)) (lit (5 / 10))
             (snd (random_uniform (lit (55 / 100)) (lit (95 / 100)) g))))))))]"
  by (simp add: verify_drug_def Let_def split_beta)

lemma is_authentic_always:
  "lit (5 / 10) < fst (random_uniform (lit (55 / 100)) (lit (95 / 100)) g)"
  using raw_confidence_bounds(1) [of g] conf_consts(5) by linarith

lemma app_verify_payload: "payload (fst (app (PostVerify file) g)) = fst (verify_drug file g)"
  by (simp add: split_beta)

lemma app_verify_status: "status (fst (app (PostVerify file) g)) = 200"
  by (simp add: split_beta)

lemma verdict_shape:
  "\<exists>r a h. payload (fst (app (PostVerify file) g)) =
       [(''authentic'', JBool (lit (5 / 10) < r)),
        (''confidence'', JFloat (round_py (fl (r * 100)) 1)),
        (''risk_level'', JStr (if lit (5 / 10) < r then ''LOW'' else ''HIGH'')),
        (''anomaly_score'', JFloat (round_py a 3)),
        (''blockchain_hash'', JStr h)]
     \<and> lit (55 / 100) \<le> r \<and> r \<le> lit (95 / 100)
     \<and> lit (1 / 10) \<le> a \<and> a \<le> lit (5 / 10)"
proof -
  define r where "r = fst (random_uniform (lit (55 / 100)) (lit (95 / 100)) g)"
  define g1 where "g1 = snd (random_uniform (lit (55 / 100)) (lit (95 / 100)) g)"
  define a where "a = fst (random_uniform (lit (1 / 10)) (lit (5 / 10)) g1)"
  define h where "h = ''0x'' @ format_064x (fst (random_randint (10 ^ 63) (10 ^ 64 - 1)
                        (snd (random_uniform (lit (1 / 10)) (lit (5 / 10)) g1))))"
  have "payload (fst (app (PostVerify file) g)) =
       [(''authentic'', JBool (lit (5 / 10) < r)),
        (''confidence'', JFloat (round_py (fl (r * 100)) 1)),
        (''risk_level'', JStr (if lit (5 / 10) < r then ''LOW'' else ''HIGH'')),
        (''anomaly_score'', JFloat (round_py a 3)),
        (''blockchain_hash'', JStr h)]"
    by (simp only: app_verify_payload verify_drug_payload r_def g1_def a_def h_def)
  moreover have "lit (55 / 100) \<le> r" "r \<le> lit (95 / 100)"
    unfolding r_def by (rule raw_confidence_bounds)+
  moreover have "lit (1 / 10) \<le> a" "a \<le> lit (5 / 10)"
    unfolding a_def by (rule raw_anomaly_bounds)+
  ultimately show ?thesis
    by blast
qed

lemma lit_85: "lit 85 = 85"
  by code_simp

lemma round_py_decimal: "\<exists>k. round_py x n = fl (of_int k / 10 ^ n)"
  unfolding round_py_def by (rule exI) (rule refl)

lemma app_verify_state: "snd (app (PostVerify file) g) = stl (stl (stl g))"
  by (simp add: verify_drug_def random_uniform_def random_random_def random_randint_def
      Let_def split_beta)

lemma confidence_field:
  "map_of (payload (fst (app (PostVerify file) g))) ''confidence''
     = Some (JFloat (round_py (fl (fst (random_uniform (lit (55 / 100)) (lit (95 / 100)) g) * 100)) 1))"
  unfolding app_verify_payload verify_drug_payload by simp

lemma risk_level_field:
  "map_of (payload (fst (app (PostVerify file) g))) ''risk_level'' = Some (JStr ''LOW'')"
  unfolding app_verify_payload verify_drug_payload using is_authentic_always [of g] by simp

lemma authentic_field:
  "map_of (payload (fst (app (PostVerify file) g))) ''authentic'' = Some (JBool True)"
  unfolding app_verify_payload verify_drug_payload using is_authentic_always [of g] by simp

lemma confidence_at_0:
  "round_py (fl (fl (lit (55 / 100) + fl (fl (lit (95 / 100) - lit (55 / 100)) * (0 / 2 ^ 53))) * 100)) 1 = 55"
  by code_simp

lemma confidence_at_half:
  "round_py (fl (fl (lit (55 / 100) + fl (fl (lit (95 / 100) - lit (55 / 100)) * (2 ^ 52 / 2 ^ 53))) * 100)) 1 = 75"
  by code_simp

lemma uniform_head:
  "fst (random_uniform a b g) = fl (a + fl (fl (b - a) * (of_nat (shd g mod 2 ^ 53) / 2 ^ 53)))"
  by (simp add: random_uniform_def random_random_def)

lemma confidence_sconst_0:
  "map_of (payload (fst (app (PostVerify file) (sconst 0)))) ''confidence'' = Some (JFloat 55)"
proof -
  have "shd (sconst (0::nat)) mod 2 ^ 53 = 0" by simp
  then show ?thesis
    using confidence_at_0 by (simp only: confidence_field uniform_head of_nat_0)
qed


lemma confidence_sconst_half:
  "map_of (payload (fst (app (PostVerify file) (sconst (2 ^ 52))))) ''confidence'' = Some (JFloat 75)"
proof -
  have "shd (sconst ((2::nat) ^ 52)) mod 2 ^ 53 = 2 ^ 52" by simp
  then show ?thesis
    using confidence_at_half by (simp only: confidence_field uniform_head of_nat_power of_nat_numeral)
qed

lemma uniform_fst: "fst (random_uniform a b g) = fl (a + fl (fl (b - a) * fst (random_random g)))"
  by (simp add: random_uniform_def split_beta)

lemma uniform_snd: "snd (random_uniform a b g) = stl g"
  by (simp add: random_uniform_def random_random_def split_beta)

lemma admit_ticket_iff: "is_ticket (fst (admit c)) = (in_flight c < capacity c)"
  by (simp add: admit_def)

lemma admit_n_invariant:
  assumes "admit_n n c = (rs, c')" "in_flight c + n \<le> capacity c"
  shows "length rs = n \<and> list_all is_ticket rs \<and> in_flight c' = in_flight c + n
         \<and> capacity c' = capacity c
         \<and> (\<forall>t. Ticket t \<in> set rs \<longrightarrow> t \<in> set (live c'))
         \<and> set (live c) \<subseteq> set (live c')"
  using assms
proof (induction n arbitrary: c rs c')
  case 0
  then show ?case by simp
next
  case (Suc n)
  obtain a c1 where a: "admit c = (a, c1)" by (cases "admit c")
  obtain as c2 where as: "admit_n n c1 = (as, c2)" by (cases "admit_n n c1")
  from Suc.prems(1) a as have rs: "rs = a # as" and c': "c' = c2" by simp_all
  from Suc.prems(2) have lt: "in_flight c < capacity c" by simp
  with a have a1: "a = Ticket (next_ticket c)"
    and c1: "in_flight c1 = in_flight c + 1" "capacity c1 = capacity c"
      "live c1 = next_ticket c # live c"
    by (auto simp add: admit_def)
  from Suc.prems(2) c1 have "in_flight c1 + n \<le> capacity c1" by simp
  from Suc.IH [OF as this]
  have ih: "length as = n" "list_all is_ticket as" "in_flight c2 = in_flight c1 + n"
    "capacity c2 = capacity c1" "\<forall>t. Ticket t \<in> set as \<longrightarrow> t \<in> set (live c2)"
    "set (live c1) \<subseteq> set (live c2)"
    by simp_all
  from ih c1 a1 show ?case
    unfolding rs c' by auto
qed

lemma raw_confidence_near_half:
  "fl (lit (55 / 100) + fl (fl (lit (95 / 100) - lit (55 / 100)) * (2 ^ 52 / 2 ^ 53)))
     = fl (lit (55 / 100) + fl (fl (lit (95 / 100) - lit (55 / 100)) * ((2 ^ 52 + 1) / 2 ^ 53)))"
  by code_simp

section \<open>The verdict of POST /verify\<close>


text \<open>
  Claim C9. Every verdict returned by POST /verify has \<open>authentic = true\<close> and
  \<open>risk_level = "LOW"\<close>, its confidence lies in \<open>[55.0, 95.0]\<close> and its anomaly score
  in \<open>[0.1, 0.5]\<close>: the branch that yields \<open>"HIGH"\<close> is never taken. The bounds of the
  anomaly score hold for the floats \<^verbatim>\<open>0.1\<close> and \<^verbatim>\<open>0.5\<close> and for the decimal numbers.
\<close>

theorem always_authentic_low:
  "\<exists>c a h. payload (fst (app (PostVerify file) g)) =
       [(''authentic'', JBool True), (''confidence'', JFloat c), (''risk_level'', JStr ''LOW''),
        (''anomaly_score'', JFloat a), (''blockchain_hash'', JStr h)]
     \<and> 55 \<le> c \<and> c \<le> 95 \<and> lit (1 / 10) \<le> a \<and> a \<le> lit (5 / 10)
     \<and> 1 / 10 \<le> a \<and> a \<le> 1 / 2"
proof -
  from verdict_shape [of "file" g] obtain r a h where
    p: "payload (fst (app (PostVerify file) g)) =
       [(''authentic'', JBool (lit (5 / 10) < r)),
        (''confidence'', JFloat (round_py (fl (r * 100)) 1)),
        (''risk_level'', JStr (if lit (5 / 10) < r then ''LOW'' else ''HIGH'')),
        (''anomaly_score'', JFloat (round_py a 3)),
        (''blockchain_hash'', JStr h)]"
    and r: "lit (55 / 100) \<le> r" "r \<le> lit (95 / 100)"
    and a: "lit (1 / 10) \<le> a" "a \<le> lit (5 / 10)"
    by blast
  have c: "55 \<le> round_py (fl (r * 100)) 1" "round_py (fl (r * 100)) 1 \<le> 95"
    using r by (rule confidence_pct_bounds)+
  have s: "lit (1 / 10) \<le> round_py a 3" "round_py a 3 \<le> lit (5 / 10)"
    using a by (rule anomaly_score_bounds)+
  have s': "1 / 10 \<le> round_py a 3" "round_py a 3 \<le> 1 / 2"
    using s anom_consts(7) anom_consts(8) by linarith+
  have b: "lit (5 / 10) < r" using r(1) conf_consts(5) by linarith
  have "payload (fst (app (PostVerify file) g)) =
       [(''authentic'', JBool True), (''confidence'', JFloat (round_py (fl (r * 100)) 1)),
        (''risk_level'', JStr ''LOW''),
        (''anomaly_score'', JFloat (round_py a 3)), (''blockchain_hash'', JStr h)]"
    unfolding p using b by (simp only: if_True simp_thms)
  with c s s' show ?thesis
    by blast
qed

text \<open>
  Claim C10. The response of POST /verify does not depend on the uploaded file: two
  uploads processed from the same state of the random generator get the same
  response and leave the same state behind, and every upload is answered with status
  200, whatever its size, its declared media type or its content.
\<close>

theorem verify_ignores_upload:
  "app (PostVerify file) g = app (PostVerify file') g
   \<and> status (fst (app (PostVerify file) g)) = 200"
  by (simp add: verify_drug_def split_beta)

text \<open>
  Claim C6. Every response of POST /verify has status 200 and a body with exactly the
  fields \<open>authentic\<close> (a boolean), \<open>confidence\<close> (a float), \<open>risk_level\<close>,
  \<open>anomaly_score\<close> (a float) and \<open>blockchain_hash\<close> (a string), in this order. The
  confidence is the binary64 nearest to a number with one decimal and lies in
  \<open>[0, 100]\<close>, the anomaly score is the binary64 nearest to a number with three
  decimals, and the risk level is \<open>"LOW"\<close> or \<open>"HIGH"\<close>, and \<open>"LOW"\<close> exactly when the
  confidence exceeds 50.0.
\<close>

theorem verdict_fields_and_ranges:
  "status (fst (app (PostVerify file) g)) = 200
   \<and> map fst (payload (fst (app (PostVerify file) g)))
       = [''authentic'', ''confidence'', ''risk_level'', ''anomaly_score'', ''blockchain_hash'']
   \<and> (\<exists>b c r a h. payload (fst (app (PostVerify file) g)) =
          [(''authentic'', JBool b), (''confidence'', JFloat c), (''risk_level'', JStr r),
           (''anomaly_score'', JFloat a), (''blockchain_hash'', JStr h)]
        \<and> (\<exists>k. c = fl (of_int k / 10)) \<and> 0 \<le> c \<and> c \<le> 100
        \<and> (\<exists>k. a = fl (of_int k / 1000))
        \<and> (r = ''LOW'' \<or> r = ''HIGH'')
        \<and> (r = ''LOW'') = (50 < c))"
proof -
  from verdict_shape [of "file" g] obtain r a h where
    p: "payload (fst (app (PostVerify file) g)) =
       [(''authentic'', JBool (lit (5 / 10) < r)),
        (''confidence'', JFloat (round_py (fl (r * 100)) 1)),
        (''risk_level'', JStr (if lit (5 / 10) < r then ''LOW'' else ''HIGH'')),
        (''anomaly_score'', JFloat (round_py a 3)),
        (''blockchain_hash'', JStr h)]"
    and r: "lit (55 / 100) \<le> r" "r \<le> lit (95 / 100)"
    by blast
  define c where "c = round_py (fl (r * 100)) 1"
  define s where "s = round_py a 3"
  define t where "t = (if lit (5 / 10) < r then ''LOW'' else ''HIGH'')"
  have c: "55 \<le> c" "c \<le> 95"
    unfolding c_def using r by (rule confidence_pct_bounds)+
  have b: "lit (5 / 10) < r" using r(1) conf_consts(5) by linarith
  have t: "t = ''LOW''" using b by (simp only: t_def if_True)
  have ck: "\<exists>k. c = fl (of_int k / 10)"
    using round_py_decimal [of "fl (r * 100)" 1] by (simp add: c_def)
  have sk: "\<exists>k. s = fl (of_int k / 1000)"
    using round_py_decimal [of a 3] by (simp add: s_def)
  have p': "payload (fst (app (PostVerify file) g)) =
       [(''authentic'', JBool (lit (5 / 10) < r)), (''confidence'', JFloat c),
        (''risk_level'', JStr t), (''anomaly_score'', JFloat s), (''blockchain_hash'', JStr h)]"
    by (simp only: p c_def s_def t_def)
  have keys: "map fst (payload (fst (app (PostVerify file) g)))
       = [''authentic'', ''confidence'', ''risk_level'', ''anomaly_score'', ''blockchain_hash'']"
    unfolding p' by simp
  have rng: "0 \<le> c" "c \<le> 100" "50 < c" using c by linarith+
  have "\<exists>b c r a h. payload (fst (app (PostVerify file) g)) =
          [(''authentic'', JBool b), (''confidence'', JFloat c), (''risk_level'', JStr r),
           (''anomaly_score'', JFloat a), (''blockchain_hash'', JStr h)]
        \<and> (\<exists>k. c = fl (of_int k / 10)) \<and> 0 \<le> c \<and> c \<le> 100
        \<and> (\<exists>k. a = fl (of_int k / 1000))
        \<and> (r = ''LOW'' \<or> r = ''HIGH'')
        \<and> (r = ''LOW'') = (50 < c)"
    using p' ck sk rng t by blast
  with keys app_verify_status [of "file" g] show ?thesis
    by (simp only: simp_thms)
qed

text \<open>
  Claim C5. In every verdict of POST /verify the risk level is \<open>"LOW"\<close> when the
  authenticity flag is true and \<open>"HIGH"\<close> otherwise, and over the verdicts the
  handler produces the risk level is monotone in the confidence percentage: of two
  verdicts, the one with the higher or the same confidence has the lower or the same
  tier, that is, \<open>"LOW"\<close> at one confidence is \<open>"LOW"\<close> at every confidence from there
  upwards. With only two tiers this is the whole of monotonicity, and it gives equal
  tiers to equal confidences.
\<close>

theorem risk_level_two_tier_monotone:
  "(\<exists>b. map_of (payload (fst (app (PostVerify file) g))) ''authentic'' = Some (JBool b)
        \<and> map_of (payload (fst (app (PostVerify file) g))) ''risk_level''
            = Some (JStr (if b then ''LOW'' else ''HIGH'')))
   \<and> (\<forall>c c'. map_of (payload (fst (app (PostVerify file) g))) ''confidence'' = Some (JFloat c)
          \<and> map_of (payload (fst (app (PostVerify file') g'))) ''confidence'' = Some (JFloat c')
          \<and> c \<le> c'
          \<and> map_of (payload (fst (app (PostVerify file) g))) ''risk_level'' = Some (JStr ''LOW'')
        \<longrightarrow> map_of (payload (fst (app (PostVerify file') g'))) ''risk_level'' = Some (JStr ''LOW''))"
proof -
  have "\<exists>b. map_of (payload (fst (app (PostVerify file) g))) ''authentic'' = Some (JBool b)
        \<and> map_of (payload (fst (app (PostVerify file) g))) ''risk_level''
            = Some (JStr (if b then ''LOW'' else ''HIGH''))"
    using authentic_field [of "file" g] risk_level_field [of "file" g]
    by (intro exI [of _ True]) simp
  then show ?thesis
    using risk_level_field [of file' g'] by blast
qed

theorem risk_level_two_tier_monotone_witness:
  "map_of (payload (fst (app (PostVerify \<lparr>filename = Some ''a.png'', content_type = Some ''image/png'',
        content = ''abc''\<rparr>) (sconst 0)))) ''confidence'' = Some (JFloat 55)
   \<and> map_of (payload (fst (app (PostVerify \<lparr>filename = Some ''b.png'', content_type = Some ''image/png'',
        content = ''xyz''\<rparr>) (sconst (2 ^ 52))))) ''confidence'' = Some (JFloat 75)
   \<and> (55::rat) \<le> 75
   \<and> map_of (payload (fst (app (PostVerify \<lparr>filename = Some ''a.png'', content_type = Some ''image/png'',
        content = ''abc''\<rparr>) (sconst 0)))) ''risk_level'' = Some (JStr ''LOW'')
   \<and> map_of (payload (fst (app (PostVerify \<lparr>filename = Some ''b.png'', content_type = Some ''image/png'',
        content = ''xyz''\<rparr>) (sconst (2 ^ 52))))) ''risk_level'' = Some (JStr ''LOW'')"
proof -
  let ?f = "\<lparr>filename = Some ''a.png'', content_type = Some ''image/png'', content = ''abc''\<rparr>"
  let ?f' = "\<lparr>filename = Some ''b.png'', content_type = Some ''image/png'', content = ''xyz''\<rparr>"
  have c: "map_of (payload (fst (app (PostVerify ?f) (sconst 0)))) ''confidence'' = Some (JFloat 55)"
    by (rule confidence_sconst_0)
  have c': "map_of (payload (fst (app (PostVerify ?f') (sconst (2 ^ 52))))) ''confidence''
      = Some (JFloat 75)"
    by (rule confidence_sconst_half)
  have le: "(55::rat) \<le> 75" by simp
  have l: "map_of (payload (fst (app (PostVerify ?f) (sconst 0)))) ''risk_level'' = Some (JStr ''LOW'')"
    by (rule risk_level_field)
  have "map_of (payload (fst (app (PostVerify ?f') (sconst (2 ^ 52))))) ''risk_level''
      = Some (JStr ''LOW'')"
    using risk_level_two_tier_monotone [of ?f "sconst 0" ?f' "sconst (2 ^ 52)"] c c' le l
    by blast
  with c c' le l show ?thesis
    by (intro conjI)
qed

text \<open>
  Claim C3, as the code has it. The handler has no size ceiling and never looks at the
  upload: a file of any size is answered with status 200 and a verdict, and never
  with 413.
\<close>

theorem no_size_ceiling:
  "status (fst (app (PostVerify file) g)) = 200
   \<and> status (fst (app (PostVerify file) g)) \<noteq> 413
   \<and> map fst (payload (fst (app (PostVerify file) g)))
       = [''authentic'', ''confidence'', ''risk_level'', ''anomaly_score'', ''blockchain_hash'']"
  by (simp add: verify_drug_def Let_def split_beta)

text \<open>
  Claim C3 as stated fails: with the ceiling of 5 MB of the specification's scenario,
  an upload of 6 MB is answered with status 200.
\<close>

theorem oversize_upload_accepted:
  "5 * 1024 * 1024
     < length (content \<lparr>filename = Some ''scan.png'', content_type = Some ''image/png'',
                         content = replicate (6 * 1024 * 1024) (CHR 0x00)\<rparr>)
   \<and> status (fst (app (PostVerify \<lparr>filename = Some ''scan.png'', content_type = Some ''image/png'',
                         content = replicate (6 * 1024 * 1024) (CHR 0x00)\<rparr>) (sconst 0))) = 200"
  by (simp add: split_beta)

text \<open>
  Claim C2, as the code has it. The fields \<open>authentic\<close>, \<open>confidence\<close>, \<open>risk_level\<close>
  and \<open>anomaly_score\<close> of a verdict are a function of the score the handler draws, the
  raw confidence and the raw anomaly (the two results of \<^verbatim>\<open>random.uniform\<close>): two runs
  with the same score agree on everything but the hash, whatever the uploads and the
  generator states are. The generators need not deliver the same numbers: the draws
  \<open>2\<^sup>5\<^sup>2 / 2\<^sup>5\<^sup>3\<close> and \<open>(2\<^sup>5\<^sup>2 + 1) / 2\<^sup>5\<^sup>3\<close> of \<^verbatim>\<open>random.random\<close> round to the same raw
  confidence.
\<close>

theorem verdict_determined_by_score_draws:
  assumes "fst (random_uniform (lit (55 / 100)) (lit (95 / 100)) g)
         = fst (random_uniform (lit (55 / 100)) (lit (95 / 100)) g')"
    and "fst (random_uniform (lit (1 / 10)) (lit (5 / 10))
             (snd (random_uniform (lit (55 / 100)) (lit (95 / 100)) g)))
         = fst (random_uniform (lit (1 / 10)) (lit (5 / 10))
             (snd (random_uniform (lit (55 / 100)) (lit (95 / 100)) g')))"
  shows "butlast (payload (fst (app (PostVerify file) g)))
           = butlast (payload (fst (app (PostVerify file') g')))
         \<and> map_of (payload (fst (app (PostVerify file) g))) ''authentic''
           = map_of (payload (fst (app (PostVerify file') g'))) ''authentic''
         \<and> map_of (payload (fst (app (PostVerify file) g))) ''confidence''
           = map_of (payload (fst (app (PostVerify file') g'))) ''confidence''
         \<and> map_of (payload (fst (app (PostVerify file) g))) ''risk_level''
           = map_of (payload (fst (app (PostVerify file') g'))) ''risk_level''
         \<and> map_of (payload (fst (app (PostVerify file) g))) ''anomaly_score''
           = map_of (payload (fst (app (PostVerify file') g'))) ''anomaly_score''"
  unfolding app_verify_payload verify_drug_payload assms by simp

theorem verdict_determined_by_score_draws_witness:
  "fst (random_uniform (lit (55 / 100)) (lit (95 / 100)) ([2 ^ 52, 7, 1] @- sconst 0))
     = fst (random_uniform (lit (55 / 100)) (lit (95 / 100)) ([2 ^ 52 + 1, 7, 2] @- sconst 3))
   \<and> fst (random_uniform (lit (1 / 10)) (lit (5 / 10))
         (snd (random_uniform (lit (55 / 100)) (lit (95 / 100)) ([2 ^ 52, 7, 1] @- sconst 0))))
     = fst (random_uniform (lit (1 / 10)) (lit (5 / 10))
         (snd (random_uniform (lit (55 / 100)) (lit (95 / 100)) ([2 ^ 52 + 1, 7, 2] @- sconst 3))))
   \<and> fst (random_random ([2 ^ 52, 7, 1] @- sconst 0))
     \<noteq> fst (random_random ([2 ^ 52 + 1, 7, 2] @- sconst 3))
   \<and> butlast (payload (fst (app (PostVerify \<lparr>filename = Some ''a.png'',
          content_type = Some ''image/png'', content = ''abc''\<rparr>) ([2 ^ 52, 7, 1] @- sconst 0))))
       = butlast (payload (fst (app (PostVerify \<lparr>filename = None,
          content_type = Some ''text/plain'', content = []\<rparr>) ([2 ^ 52 + 1, 7, 2] @- sconst 3))))"
proof -
  have s0: "(of_nat (shd ([2 ^ 52, 7, 1] @- sconst 0) mod 2 ^ 53) :: rat) = 2 ^ 52"
    by simp
  have s1: "(of_nat (shd ([2 ^ 52 + 1, 7, 2] @- sconst 3) mod 2 ^ 53) :: rat) = 2 ^ 52 + 1"
    by simp
  have h1: "fst (random_uniform (lit (55 / 100)) (lit (95 / 100)) ([2 ^ 52, 7, 1] @- sconst 0))
      = fst (random_uniform (lit (55 / 100)) (lit (95 / 100)) ([2 ^ 52 + 1, 7, 2] @- sconst 3))"
    using raw_confidence_near_half by (simp only: uniform_head s0 s1)
  have h2: "fst (random_uniform (lit (1 / 10)) (lit (5 / 10))
         (snd (random_uniform (lit (55 / 100)) (lit (95 / 100)) ([2 ^ 52, 7, 1] @- sconst 0))))
     = fst (random_uniform (lit (1 / 10)) (lit (5 / 10))
         (snd (random_uniform (lit (55 / 100)) (lit (95 / 100)) ([2 ^ 52 + 1, 7, 2] @- sconst 3))))"
    by (simp add: uniform_snd uniform_head)
  have d: "fst (random_random ([2 ^ 52, 7, 1] @- sconst 0))
      \<noteq> fst (random_random ([2 ^ 52 + 1, 7, 2] @- sconst 3))"
    by (simp add: random_random_def)
  from verdict_determined_by_score_draws [OF h1 h2] h1 h2 d show ?thesis
    by (intro conjI) blast+
qed

text \<open>
  Claim C2 as stated fails: the handler run twice in a row on the same upload draws
  anew the second time. From a generator that delivers 0 three times and then
  \<open>2\<^sup>5\<^sup>2\<close>, the first verdict has confidence 55.0 and the second 75.0.
\<close>

theorem successive_runs_differ:
  "map_of (payload (fst (app (PostVerify \<lparr>filename = Some ''a.png'',
        content_type = Some ''image/png'', content = ''abc''\<rparr>) ([0, 0, 0] @- sconst (2 ^ 52)))))
      ''confidence'' = Some (JFloat 55)
   \<and> map_of (payload (fst (app (PostVerify \<lparr>filename = Some ''a.png'',
        content_type = Some ''image/png'', content = ''abc''\<rparr>)
        (snd (app (PostVerify \<lparr>filename = Some ''a.png'',
          content_type = Some ''image/png'', content = ''abc''\<rparr>) ([0, 0, 0] @- sconst (2 ^ 52)))))))
      ''confidence'' = Some (JFloat 75)"
proof -
  let ?f = "\<lparr>filename = Some ''a.png'', content_type = Some ''image/png'', content = ''abc''\<rparr>"
  have s: "stl (stl (stl ([0, 0, 0] @- sconst ((2::nat) ^ 52)))) = sconst (2 ^ 52)"
    by simp
  have "shd ([0, 0, 0] @- sconst ((2::nat) ^ 52)) mod 2 ^ 53 = 0" by simp
  then have "map_of (payload (fst (app (PostVerify ?f) ([0, 0, 0] @- sconst (2 ^ 52)))))
      ''confidence'' = Some (JFloat 55)"
    using confidence_at_0 by (simp only: confidence_field uniform_head of_nat_0)
  moreover have "map_of (payload (fst (app (PostVerify ?f)
        (snd (app (PostVerify ?f) ([0, 0, 0] @- sconst (2 ^ 52))))))) ''confidence''
      = Some (JFloat 75)"
    by (simp only: app_verify_state s confidence_sconst_half)
  ultimately show ?thesis ..
qed

section \<open>The constant routes\<close>

text \<open>
  Claim C7. GET /health returns status 200 and the body
  \<^verbatim>\<open>{"status": "healthy", "service": "medchain-oracle-api"}\<close> in every state of the
  service, and leaves the state as it was.
\<close>

theorem health_check_constant:
  "app GetHealth g =
     (Response 200 [(''status'', JStr ''healthy''), (''service'', JStr ''medchain-oracle-api'')], g)"
  by (simp add: health_check_def)

text \<open>
  Claim C8. GET /shortage-prediction returns status 200 and one constant object with
  exactly the fields \<open>drug\<close>, \<open>location\<close>, \<open>risk_score\<close> and \<open>recommendation\<close>, in every
  state of the service.
\<close>

theorem shortage_prediction_constant:
  "app GetShortagePrediction g =
     (Response 200 [(''drug'', JStr ''Insulin Glargine 100U/mL''),
                    (''location'', JStr ''Mumbai Central''),
                    (''risk_score'', JFloat 85),
                    (''recommendation'', JStr ''URGENT: Order 259 units immediately'')], g)
   \<and> map fst (payload (fst (app GetShortagePrediction g)))
         = [''drug'', ''location'', ''risk_score'', ''recommendation'']"
  by (simp add: predict_shortage_def lit_85)

section \<open>Admission control\<close>

text \<open>
  Claim C4. The controller's \<open>admit\<close> returns a ticket exactly while the count of
  requests in flight is below the capacity, and otherwise returns \<open>Rejected\<close> and
  leaves the controller as it was. From a fresh controller of capacity \<open>C\<close>, \<open>C\<close> calls
  in a row all return tickets, the next call returns \<open>Rejected\<close>, and after the release
  of any one of the tickets issued the next call returns a ticket again.
\<close>

theorem admission_capacity:
  "is_ticket (fst (admit c0)) = (in_flight c0 < capacity c0)
   \<and> (\<not> in_flight c0 < capacity c0 \<longrightarrow> admit c0 = (Rejected, c0))
   \<and> length (fst (admit_n C (new_controller C))) = C
   \<and> list_all is_ticket (fst (admit_n C (new_controller C)))
   \<and> fst (admit (snd (admit_n C (new_controller C)))) = Rejected
   \<and> (\<forall>t. Ticket t \<in> set (fst (admit_n C (new_controller C)))
          \<longrightarrow> is_ticket (fst (admit (release t (snd (admit_n C (new_controller C)))))))"
proof -
  obtain rs c where run: "admit_n C (new_controller C) = (rs, c)"
    by (cases "admit_n C (new_controller C)")
  have "in_flight (new_controller C) + C \<le> capacity (new_controller C)"
    by (simp add: new_controller_def)
  from admit_n_invariant [OF run this]
  have inv: "length rs = C" "list_all is_ticket rs" "in_flight c = C" "capacity c = C"
    "\<forall>t. Ticket t \<in> set rs \<longrightarrow> t \<in> set (live c)"
    by (simp_all add: new_controller_def)
  have rej: "fst (admit c) = Rejected"
    using inv(3,4) by (simp add: admit_def)
  have rel: "is_ticket (fst (admit (release t c)))" if "Ticket t \<in> set rs" for t
  proof -
    from that inv(5) have "t \<in> set (live c)" by blast
    moreover from that inv(1) have "0 < C" by (cases rs) auto
    ultimately have "in_flight (release t c) < capacity (release t c)"
      using inv(3,4) by (simp add: release_def)
    then show ?thesis by (simp add: admit_ticket_iff)
  qed
  have pol: "\<not> in_flight c0 < capacity c0 \<longrightarrow> admit c0 = (Rejected, c0)"
    by (simp add: admit_def)
  show ?thesis
    using admit_ticket_iff [of c0] pol inv(1,2) rej rel by (simp add: run)
qed

theorem admission_capacity_witness:
  "\<not> in_flight \<lparr>capacity = 1, in_flight = 1, next_ticket = 1, live = [0]\<rparr>
       < capacity \<lparr>capacity = 1, in_flight = 1, next_ticket = 1, live = [0]\<rparr>
   \<and> admit \<lparr>capacity = 1, in_flight = 1, next_ticket = 1, live = [0]\<rparr>
       = (Rejected, \<lparr>capacity = 1, in_flight = 1, next_ticket = 1, live = [0]\<rparr>)
   \<and> fst (admit_n 2 (new_controller 2)) = [Ticket 0, Ticket 1]
   \<and> fst (admit (snd (admit_n 2 (new_controller 2)))) = Rejected
   \<and> Ticket 0 \<in> set (fst (admit_n 2 (new_controller 2)))
   \<and> is_ticket (fst (admit (release 0 (snd (admit_n 2 (new_controller 2))))))"
proof -
  let ?c = "\<lparr>capacity = 1, in_flight = 1, next_ticket = 1, live = [0]\<rparr>"
  have full: "\<not> in_flight ?c < capacity ?c" by simp
  have run: "fst (admit_n 2 (new_controller 2)) = [Ticket 0, Ticket 1]"
    by (simp add: numeral_2_eq_2 admit_def new_controller_def)
  have mem: "Ticket 0 \<in> set (fst (admit_n 2 (new_controller 2)))"
    by (simp add: run)
  note inst = admission_capacity [of ?c 2]
  from inst full have "admit ?c = (Rejected, ?c)" by blast
  moreover from inst have "fst (admit (snd (admit_n 2 (new_controller 2)))) = Rejected" by blast
  moreover from inst mem have "is_ticket (fst (admit (release 0 (snd (admit_n 2 (new_controller 2))))))"
    by blast
  ultimately show ?thesis
    using full run mem by (intro conjI)
qed

end
